theory Spec2Isabelle
  imports Complex_Main
begin

section \<open>Python values\<close>

text \<open>
  The scripts compute with Python floats and strings. A string is modelled by the list
  of its code points, each of them below 256. In the scoring, where a comparison with
  the tolerance decides the result, a float is a double-precision value with the
  rounding of every operation (type \<open>pyfloat\<close> below). In the statistics, a float is
  modelled by the real number it approximates; the results there are stated up to
  rounding. The exceptions that the scoring and the statistics can raise are values of
  type \<open>error\<close>; a function that can raise returns \<open>error + 'a\<close>, with \<open>Inl\<close> for
  the exception.
\<close>

datatype error = ValueError | ZeroDivisionError

subsection \<open>\<open>str.lower\<close>, \<open>str.strip\<close> and the \<open>in\<close> test\<close>

definition lower_char :: "char \<Rightarrow> char" where
  "lower_char c =
     (let n = (of_char c :: nat)
      in if (65 \<le> n \<and> n \<le> 90) \<or> (192 \<le> n \<and> n \<le> 214) \<or> (216 \<le> n \<and> n \<le> 222)
         then char_of (n + 32) else c)"

definition lower :: "string \<Rightarrow> string" where
  "lower s = map lower_char s"

definition isspace :: "char \<Rightarrow> bool" where
  "isspace c =
     (let n = (of_char c :: nat)
      in (9 \<le> n \<and> n \<le> 13) \<or> (28 \<le> n \<and> n \<le> 32) \<or> n = 133 \<or> n = 160)"

definition strip :: "string \<Rightarrow> string" where
  "strip s = rev (dropWhile isspace (rev (dropWhile isspace s)))"

fun starts_with :: "string \<Rightarrow> string \<Rightarrow> bool" where
  "starts_with s [] = True"
| "starts_with [] (p # ps) = False"
| "starts_with (c # cs) (p # ps) = (c = p \<and> starts_with cs ps)"

text \<open>\<open>contains hay needle\<close> is Python's \<open>needle in hay\<close> on strings.\<close>

fun contains :: "string \<Rightarrow> string \<Rightarrow> bool" where
  "contains [] needle = (needle = [])"
| "contains (c # cs) needle = (starts_with (c # cs) needle \<or> contains cs needle)"

subsection \<open>The number pattern \<open>-?\d+\.?\d*\<close>\<close>

definition is_digit :: "char \<Rightarrow> bool" where
  "is_digit c = (let n = (of_char c :: nat) in 48 \<le> n \<and> n \<le> 57)"

text \<open>
  An optional character at the start of a string: the part that \<open>c?\<close> consumes
  and the part it leaves.
\<close>

definition take_opt :: "char \<Rightarrow> string \<Rightarrow> string" where
  "take_opt ch s = (case s of [] \<Rightarrow> [] | c # t \<Rightarrow> if c = ch then [c] else [])"

definition drop_opt :: "char \<Rightarrow> string \<Rightarrow> string" where
  "drop_opt ch s = (case s of [] \<Rightarrow> [] | c # t \<Rightarrow> if c = ch then t else s)"

text \<open>
  \<open>match_number s\<close> matches the pattern at the start of \<open>s\<close> and returns the matched
  text with what follows it. Every part after the first digit run is optional and
  greedy, so the only backtracking is over the sign: a minus sign that no digit follows
  is not a match, and neither is the minus sign itself.
\<close>

definition match_number :: "string \<Rightarrow> (string \<times> string) option" where
  "match_number s =
     (let s1 = drop_opt (CHR ''-'') s;
          ds = takeWhile is_digit s1;
          s2 = dropWhile is_digit s1;
          s3 = drop_opt (CHR ''.'') s2
      in if ds = [] then None
         else Some (take_opt (CHR ''-'') s @ ds @ take_opt (CHR ''.'') s2 @ takeWhile is_digit s3,
                    dropWhile is_digit s3))"

lemma length_drop_opt: "length (drop_opt ch s) \<le> length s"
  by (simp add: drop_opt_def split: list.split)

lemma length_dropWhile_less:
  "takeWhile P xs \<noteq> [] \<Longrightarrow> length (dropWhile P xs) < length xs"
  by (cases xs) (auto simp: le_imp_less_Suc length_dropWhile_le split: if_splits)

lemma match_number_shorter:
  assumes "match_number s = Some (m, rest)"
  shows "length rest < length s"
proof -
  define s1 where "s1 = drop_opt (CHR ''-'') s"
  define s2 where "s2 = dropWhile is_digit s1"
  define s3 where "s3 = drop_opt (CHR ''.'') s2"
  from assms have ne: "takeWhile is_digit s1 \<noteq> []" and r: "rest = dropWhile is_digit s3"
    by (simp_all add: match_number_def Let_def s1_def s2_def s3_def split: if_splits)
  have "length rest \<le> length s3" unfolding r by (rule length_dropWhile_le)
  also have "\<dots> \<le> length s2" unfolding s3_def by (rule length_drop_opt)
  also have "\<dots> < length s1" unfolding s2_def using ne by (rule length_dropWhile_less)
  also have "\<dots> \<le> length s" unfolding s1_def by (rule length_drop_opt)
  finally show ?thesis .
qed

text \<open>\<open>re.findall\<close> with the pattern: the matches from left to right, none overlapping.\<close>

function findall_number :: "string \<Rightarrow> string list" where
  "findall_number [] = []"
| "findall_number (c # cs) =
     (case match_number (c # cs) of
        None \<Rightarrow> findall_number cs
      | Some (m, rest) \<Rightarrow> m # findall_number rest)"
  by pat_completeness auto
termination
  by (relation "measure length") (auto dest: match_number_shorter)

subsection \<open>Double-precision floats\<close>

text \<open>
  A Python float: a finite value, an infinity or NaN. A finite value is kept as the
  rational number it is; the sign of a zero is not kept, since no operation of the
  scoring tells the two zeros apart (a division by either raises). An integer that is
  compared with a float is a finite value too: Python compares the two exactly.
\<close>

datatype pyfloat = Finite rat | PosInf | NegInf | NaN

text \<open>The number of binary digits of a positive integer.\<close>

function bit_length :: "int \<Rightarrow> int" where
  "bit_length n = (if n \<le> 0 then 0 else 1 + bit_length (n div 2))"
  by pat_completeness auto
termination
  by (relation "measure nat") auto

declare bit_length.simps [simp del]

definition pow2 :: "int \<Rightarrow> rat" where
  "pow2 k = 2 powi k"

text \<open>\<open>floor_log2 a\<close> is the integer \<open>e\<close> with \<open>2^e \<le> a < 2^(e+1)\<close>, for \<open>a > 0\<close>.\<close>

definition floor_log2 :: "rat \<Rightarrow> int" where
  "floor_log2 a =
     (if 1 \<le> a then bit_length \<lfloor>a\<rfloor> - 1 else - bit_length (\<lceil>1 / a\<rceil> - 1))"

definition round_half_even :: "rat \<Rightarrow> int" where
  "round_half_even t =
     (let n = \<lfloor>t\<rfloor>;
          fr = t - of_int n
      in if 1 / 2 < fr \<or> (fr = 1 / 2 \<and> odd n) then n + 1 else n)"

text \<open>
  \<open>round64\<close> rounds a rational number to the nearest double, ties to the even
  significand: 53 bits of precision, the least exponent \<open>-1022\<close> (below it the spacing
  of the subnormal numbers stays \<open>2^-1074\<close>), and an infinity when the rounded value
  reaches \<open>2^1024\<close>.
\<close>

definition round64 :: "rat \<Rightarrow> pyfloat" where
  "round64 x =
     (if x = 0 then Finite 0
      else let a = \<bar>x\<bar>;
               e = max (floor_log2 a) (- 1022);
               ulp = pow2 (e - 52);
               y = of_int (round_half_even (a / ulp)) * ulp
           in if pow2 1024 \<le> y then (if 0 < x then PosInf else NegInf)
              else Finite (if 0 < x then y else - y))"

text \<open>Subtraction, absolute value, division and \<open>\<le>\<close> of floats.\<close>

fun fsub :: "pyfloat \<Rightarrow> pyfloat \<Rightarrow> pyfloat" where
  "fsub NaN y = NaN"
| "fsub x NaN = NaN"
| "fsub (Finite a) (Finite b) = round64 (a - b)"
| "fsub (Finite a) PosInf = NegInf"
| "fsub (Finite a) NegInf = PosInf"
| "fsub PosInf PosInf = NaN"
| "fsub PosInf y = PosInf"
| "fsub NegInf NegInf = NaN"
| "fsub NegInf y = NegInf"

fun fabs :: "pyfloat \<Rightarrow> pyfloat" where
  "fabs (Finite a) = Finite \<bar>a\<bar>"
| "fabs PosInf = PosInf"
| "fabs NegInf = PosInf"
| "fabs NaN = NaN"

fun float_quotient :: "pyfloat \<Rightarrow> pyfloat \<Rightarrow> pyfloat" where
  "float_quotient NaN y = NaN"
| "float_quotient x NaN = NaN"
| "float_quotient (Finite a) (Finite b) = round64 (a / b)"
| "float_quotient (Finite a) y = Finite 0"
| "float_quotient PosInf (Finite b) = (if 0 < b then PosInf else NegInf)"
| "float_quotient NegInf (Finite b) = (if 0 < b then NegInf else PosInf)"
| "float_quotient x y = NaN"

text \<open>Python raises \<open>ZeroDivisionError\<close> on every float division by zero.\<close>

definition fdiv :: "pyfloat \<Rightarrow> pyfloat \<Rightarrow> error + pyfloat" where
  "fdiv x y = (if y = Finite 0 then Inl ZeroDivisionError else Inr (float_quotient x y))"

fun fle :: "pyfloat \<Rightarrow> pyfloat \<Rightarrow> bool" where
  "fle NaN y = False"
| "fle x NaN = False"
| "fle (Finite a) (Finite b) = (a \<le> b)"
| "fle NegInf y = True"
| "fle x PosInf = True"
| "fle x y = False"

subsection \<open>\<open>float\<close> on a decimal literal\<close>

definition digit_val :: "char \<Rightarrow> nat" where
  "digit_val c = of_char c - 48"

definition digits_val :: "string \<Rightarrow> int" where
  "digits_val ds = foldl (\<lambda>a c. 10 * a + int (digit_val c)) 0 ds"

text \<open>
  \<open>float_of_str\<close> is \<open>float\<close> on the plain decimal literals: an optional minus sign,
  digits, an optional point, digits, with a digit on one side of the point at least.
  Every text that the number pattern matches is one of them. The result is the double
  nearest to the decimal value. Python's \<open>float\<close> reads other spellings too (an
  exponent, \<open>inf\<close>, surrounding blanks); they are not modelled and come out as
  \<open>ValueError\<close> here.
\<close>

definition float_of_str :: "string \<Rightarrow> error + pyfloat" where
  "float_of_str s =
     (let neg = (take_opt (CHR ''-'') s \<noteq> []);
          s1 = drop_opt (CHR ''-'') s;
          ip = takeWhile is_digit s1;
          r = dropWhile is_digit s1;
          fp = drop_opt (CHR ''.'') r;
          v = of_int (digits_val ip) + of_int (digits_val fp) / 10 ^ length fp
      in if (r = [] \<or> take_opt (CHR ''.'') r \<noteq> []) \<and> list_all is_digit fp
            \<and> (ip \<noteq> [] \<or> fp \<noteq> [])
         then Inr (round64 (if neg then - v else v))
         else Inl ValueError)"

text \<open>The float that the literal \<open>0.05\<close> of the source denotes.\<close>

definition default_tolerance :: pyfloat where
  "default_tolerance = round64 (5 / 100)"

section \<open>The query runner: scoring a response\<close>

text \<open>
  The body of the \<open>try\<close> block of \<open>validate_response\<close>: the first number of each
  string, and the comparison of their relative difference with the tolerance.
\<close>

definition tolerance_check :: "string \<Rightarrow> string \<Rightarrow> pyfloat \<Rightarrow> error + bool" where
  "tolerance_check response_lower expected_lower tolerance =
     (case (findall_number response_lower, findall_number expected_lower) of
        (r # _, e # _) \<Rightarrow>
          (case float_of_str r of
             Inl err \<Rightarrow> Inl err
           | Inr response_val \<Rightarrow>
               (case float_of_str e of
                  Inl err \<Rightarrow> Inl err
                | Inr expected_val \<Rightarrow>
                    (case fdiv (fabs (fsub response_val expected_val)) expected_val of
                       Inl err \<Rightarrow> Inl err
                     | Inr difference \<Rightarrow> Inr (fle difference tolerance))))
      | _ \<Rightarrow> Inr False)"

text \<open>
  \<open>validate_response\<close>: the response is absent (\<open>None\<close>) or a string; the expected
  answer is given as the string \<open>str(expected_answer)\<close>; the tolerance is a float or
  an integer. The \<open>except\<close> clause catches
  both exceptions of the block and falls through to \<open>return False\<close>.
\<close>

definition validate_response :: "string option \<Rightarrow> string \<Rightarrow> pyfloat \<Rightarrow> bool" where
  "validate_response response expected_answer tolerance =
     (case response of
        None \<Rightarrow> False
      | Some r \<Rightarrow>
          if r = [] then False
          else let response_lower = strip (lower r);
                   expected_lower = strip (lower expected_answer)
               in if contains response_lower expected_lower then True
                  else (case tolerance_check response_lower expected_lower tolerance of
                          Inr ok \<Rightarrow> ok
                        | Inl ValueError \<Rightarrow> False
                        | Inl ZeroDivisionError \<Rightarrow> False))"

text \<open>
  The relative difference of the specification,
  \<open>|response_val - expected_val| / |expected_val|\<close>, in float arithmetic; and the floats
  above zero.
\<close>

definition relative_difference :: "pyfloat \<Rightarrow> pyfloat \<Rightarrow> error + pyfloat" where
  "relative_difference response_val expected_val =
     fdiv (fabs (fsub response_val expected_val)) (fabs expected_val)"

definition is_positive :: "pyfloat \<Rightarrow> bool" where
  "is_positive x = (case x of Finite v \<Rightarrow> 0 < v | PosInf \<Rightarrow> True | NegInf \<Rightarrow> False | NaN \<Rightarrow> False)"

subsection \<open>Scoring the three responses of a query\<close>

datatype system = LLM | LLM_RAG | RCE_LLM

text \<open>
  The \<open>tolerance\<close> entry of a query: missing, a number, or a string. The entries of a
  system's result that the scoring and the statistics read are its tag, its response
  and its \<open>correct\<close> flag (a missing flag reads as \<open>False\<close>).
\<close>

datatype tolerance_field = Missing | Number pyfloat | Text string

record query_item =
  q_id :: string
  q_query :: string
  q_domain :: string
  q_expected_answer :: string
  q_tolerance :: tolerance_field

record system_result =
  system :: system
  response :: "string option"
  correct :: bool

record query_result =
  query_id :: string
  query_text :: string
  expected_answer :: string
  domain :: string
  task_family :: string
  systems :: "system_result list"

text \<open>
  The invariant of a query result: one result per system, in the order in which
  \<open>benchmark_query\<close> calls the systems.
\<close>

definition one_result_per_system :: "query_result \<Rightarrow> bool" where
  "one_result_per_system q = (map system (systems q) = [LLM, LLM_RAG, RCE_LLM])"

text \<open>
  The tolerance of \<open>benchmark_query\<close>: \<open>query.get("tolerance", 0.05)\<close>, and a string
  is converted, the string \<open>exact\<close> to \<open>0.05\<close> and any other by \<open>float\<close>.
\<close>

definition query_tolerance :: "tolerance_field \<Rightarrow> error + pyfloat" where
  "query_tolerance t =
     (case t of
        Missing \<Rightarrow> Inr default_tolerance
      | Number x \<Rightarrow> Inr x
      | Text s \<Rightarrow> if s = ''exact'' then Inr default_tolerance else float_of_str s)"

text \<open>
  \<open>benchmark_query\<close>, given the responses that the three external systems returned
  (in the order the runner calls them). Nothing in it catches the \<open>ValueError\<close> of
  the conversion.
\<close>

definition benchmark_query ::
    "query_item \<Rightarrow> string \<Rightarrow> string option \<Rightarrow> string option \<Rightarrow> string option
       \<Rightarrow> error + query_result" where
  "benchmark_query query family llm_response rag_response rce_response =
     (case query_tolerance (q_tolerance query) of
        Inl err \<Rightarrow> Inl err
      | Inr tolerance \<Rightarrow>
          Inr \<lparr>query_id = q_id query, query_text = q_query query,
               expected_answer = q_expected_answer query, domain = q_domain query,
               task_family = family,
               systems =
                 [\<lparr>system = LLM, response = llm_response,
                   correct = validate_response llm_response (q_expected_answer query) tolerance\<rparr>,
                  \<lparr>system = LLM_RAG, response = rag_response,
                   correct = validate_response rag_response (q_expected_answer query) tolerance\<rparr>,
                  \<lparr>system = RCE_LLM, response = rce_response,
                   correct = validate_response rce_response (q_expected_answer query) tolerance\<rparr>]\<rparr>)"

section \<open>The aggregator\<close>

subsection \<open>Accuracy of a task family, as the runner computes it\<close>

text \<open>
  The inner loop of every accuracy computation: one more correct answer for the system
  of each result whose \<open>correct\<close> flag is set. The counters are a dictionary with the
  three systems as keys.
\<close>

definition count_correct :: "system_result list \<Rightarrow> (system \<Rightarrow> nat) \<Rightarrow> (system \<Rightarrow> nat)" where
  "count_correct results system_correct =
     fold (\<lambda>system_result sc.
             if correct system_result
             then sc (system system_result := sc (system system_result) + 1)
             else sc)
          results system_correct"

definition system_correct_of :: "query_result list \<Rightarrow> system \<Rightarrow> nat" where
  "system_correct_of queries =
     fold (\<lambda>query_result. count_correct (systems query_result)) queries (\<lambda>_. 0)"

definition compute_accuracy :: "query_result list \<Rightarrow> system \<Rightarrow> real" where
  "compute_accuracy queries =
     (let system_correct = system_correct_of queries;
          total = length queries
      in (\<lambda>s. if total > 0 then real (system_correct s) / real total else 0))"

subsection \<open>Accuracy in the analysis stage\<close>

record family_data =
  total_queries :: nat
  queries :: "query_result list"

record acc_entry =
  acc_correct :: nat
  acc_total :: nat
  accuracy :: real




text \<open>
  \<open>compute_task_family_accuracy\<close>: for each family, the correct answers per system
  over the number of its queries.
\<close>

definition family_accuracy :: "family_data \<Rightarrow> system \<Rightarrow> acc_entry" where
  "family_accuracy family_data =
     (let system_correct =
            fold (\<lambda>query_result. count_correct (systems query_result)) (queries family_data) (\<lambda>_. 0);
          total = length (queries family_data)
      in (\<lambda>s. \<lparr>acc_correct = system_correct s, acc_total = total,
                accuracy = (if total > 0 then real (system_correct s) / real total else 0)\<rparr>))"

definition compute_task_family_accuracy ::
    "(string \<times> family_data) list \<Rightarrow> (string \<times> (system \<Rightarrow> acc_entry)) list" where
  "compute_task_family_accuracy task_families =
     map (\<lambda>(family_name, family_data). (family_name, family_accuracy family_data)) task_families"

subsection \<open>Cohen's h\<close>

text \<open>
  \<open>math.sqrt\<close> and \<open>math.asin\<close> raise \<open>ValueError\<close> outside their domains.
  \<open>cohens_h\<close> has no handler, and neither has \<open>compute_effect_sizes\<close> around its
  two calls. The functions are modelled on the real numbers: on \<open>[0,1]\<close> the model
  and the double-precision functions raise in the same cases (never), and the values
  agree up to rounding. Just above \<open>1\<close> they differ: the double square root of the
  least double above \<open>1\<close> is \<open>1.0\<close>, where the real square root is above \<open>1\<close>; the
  properties below use the model on \<open>[0,1]\<close> only.
\<close>

definition math_sqrt :: "real \<Rightarrow> error + real" where
  "math_sqrt x = (if x < 0 then Inl ValueError else Inr (sqrt x))"

definition math_asin :: "real \<Rightarrow> error + real" where
  "math_asin x = (if x < - 1 \<or> 1 < x then Inl ValueError else Inr (arcsin x))"

definition phi :: "real \<Rightarrow> error + real" where
  "phi p = (case math_sqrt p of
              Inl err \<Rightarrow> Inl err
            | Inr r \<Rightarrow> (case math_asin r of Inl err \<Rightarrow> Inl err | Inr a \<Rightarrow> Inr (2 * a)))"

definition cohens_h :: "real \<Rightarrow> real \<Rightarrow> error + real" where
  "cohens_h p1 p2 =
     (case phi p1 of
        Inl err \<Rightarrow> Inl err
      | Inr phi1 \<Rightarrow> (case phi p2 of Inl err \<Rightarrow> Inl err | Inr phi2 \<Rightarrow> Inr (phi1 - phi2)))"

definition interpret_cohens_h :: "real \<Rightarrow> string" where
  "interpret_cohens_h h =
     (let abs_h = \<bar>h\<bar>
      in if abs_h < 0.2 then ''negligible''
         else if abs_h < 0.5 then ''small''
         else if abs_h < 0.8 then ''medium''
         else ''large'')"

text \<open>
  An entry of \<open>effect_sizes\<close>: \<open>h_value\<close> is its key \<open>cohens_h\<close> and \<open>bucket\<close> its
  key \<open>interpretation\<close>.
\<close>

record effect =
  h_value :: real
  bucket :: string

record effect_sizes =
  RCE_vs_LLM :: effect
  RCE_vs_RAG :: effect

definition compute_effect_sizes :: "(system \<Rightarrow> acc_entry) \<Rightarrow> error + effect_sizes" where
  "compute_effect_sizes overall_accuracy =
     (let rce_accuracy = accuracy (overall_accuracy RCE_LLM);
          llm_accuracy = accuracy (overall_accuracy LLM);
          rag_accuracy = accuracy (overall_accuracy LLM_RAG)
      in case cohens_h rce_accuracy llm_accuracy of
           Inl err \<Rightarrow> Inl err
         | Inr effect_rce_vs_llm \<Rightarrow>
             (case cohens_h rce_accuracy rag_accuracy of
                Inl err \<Rightarrow> Inl err
              | Inr effect_rce_vs_rag \<Rightarrow>
                  Inr \<lparr>RCE_vs_LLM = \<lparr>h_value = effect_rce_vs_llm,
                                      bucket = interpret_cohens_h effect_rce_vs_llm\<rparr>,
                       RCE_vs_RAG = \<lparr>h_value = effect_rce_vs_rag,
                                      bucket = interpret_cohens_h effect_rce_vs_rag\<rparr>\<rparr>))"

subsection \<open>The third hypothesis: consistent improvement\<close>

text \<open>Python's \<open>all\<close> on a list of booleans.\<close>

primrec py_all :: "bool list \<Rightarrow> bool" where
  "py_all [] = True"
| "py_all (b # bs) = (if b then py_all bs else False)"

definition improvements :: "(string \<times> (system \<Rightarrow> acc_entry)) list \<Rightarrow> bool list" where
  "improvements task_family_accuracy =
     map (\<lambda>(family_name, family_acc).
            let rce_family = accuracy (family_acc RCE_LLM);
                llm_family = accuracy (family_acc LLM);
                rag_family = accuracy (family_acc LLM_RAG);
                improvement_vs_llm = (rce_family > llm_family);
                improvement_vs_rag = (rce_family > rag_family)
            in improvement_vs_llm \<and> improvement_vs_rag)
         task_family_accuracy"

definition h3_valid :: "(string \<times> (system \<Rightarrow> acc_entry)) list \<Rightarrow> bool" where
  "h3_valid task_family_accuracy = py_all (improvements task_family_accuracy)"

section \<open>Counts and example data\<close>

subsection \<open>What the counters count\<close>




subsection \<open>Example queries and results\<close>


text \<open>A query result as the runner builds it, with one result per system.\<close>

definition sample_query :: query_result where
  "sample_query =
     \<lparr>query_id = ''f1_q1'', query_text = ''Convert 5 km to m'', expected_answer = ''5000'',
      domain = ''units'', task_family = ''f1_units'',
      systems = [\<lparr>system = LLM, response = Some ''500 m'', correct = False\<rparr>,
                 \<lparr>system = LLM_RAG, response = None, correct = False\<rparr>,
                 \<lparr>system = RCE_LLM, response = Some ''5000 m'', correct = True\<rparr>]\<rparr>"


subsection \<open>The demonstration results\<close>

text \<open>
  The tables of \<open>create_demo_results.py\<close>: the per-family and the overall accuracy of
  the three systems.
\<close>

definition entries :: "acc_entry \<Rightarrow> acc_entry \<Rightarrow> acc_entry \<Rightarrow> system \<Rightarrow> acc_entry" where
  "entries llm rag rce s = (case s of LLM \<Rightarrow> llm | LLM_RAG \<Rightarrow> rag | RCE_LLM \<Rightarrow> rce)"

definition demo_task_family_accuracy :: "(string \<times> (system \<Rightarrow> acc_entry)) list" where
  "demo_task_family_accuracy =
     [(''f1_units'',
       entries \<lparr>acc_correct = 5, acc_total = 8, accuracy = 0.625\<rparr>
               \<lparr>acc_correct = 6, acc_total = 8, accuracy = 0.750\<rparr>
               \<lparr>acc_correct = 7, acc_total = 8, accuracy = 0.875\<rparr>),
      (''f2_temporal'',
       entries \<lparr>acc_correct = 4, acc_total = 8, accuracy = 0.500\<rparr>
               \<lparr>acc_correct = 5, acc_total = 8, accuracy = 0.625\<rparr>
               \<lparr>acc_correct = 7, acc_total = 8, accuracy = 0.875\<rparr>),
      (''f3_arithmetic'',
       entries \<lparr>acc_correct = 6, acc_total = 8, accuracy = 0.750\<rparr>
               \<lparr>acc_correct = 6, acc_total = 8, accuracy = 0.750\<rparr>
               \<lparr>acc_correct = 8, acc_total = 8, accuracy = 1.000\<rparr>),
      (''f4_coreference'',
       entries \<lparr>acc_correct = 2, acc_total = 3, accuracy = 0.667\<rparr>
               \<lparr>acc_correct = 2, acc_total = 3, accuracy = 0.667\<rparr>
               \<lparr>acc_correct = 3, acc_total = 3, accuracy = 1.000\<rparr>),
      (''f5_factual'',
       entries \<lparr>acc_correct = 1, acc_total = 3, accuracy = 0.333\<rparr>
               \<lparr>acc_correct = 2, acc_total = 3, accuracy = 0.667\<rparr>
               \<lparr>acc_correct = 3, acc_total = 3, accuracy = 1.000\<rparr>)]"

definition demo_overall_accuracy :: "system \<Rightarrow> acc_entry" where
  "demo_overall_accuracy =
     entries \<lparr>acc_correct = 18, acc_total = 30, accuracy = 0.600\<rparr>
             \<lparr>acc_correct = 21, acc_total = 30, accuracy = 0.700\<rparr>
             \<lparr>acc_correct = 28, acc_total = 30, accuracy = 0.933\<rparr>"

section \<open>Properties of the scoring\<close>

subsection \<open>Rounding to a double\<close>

text \<open>
  \<open>floor_log2\<close> finds the binade of a positive number, and \<open>round64\<close> returns the
  multiple of the spacing of that binade that is less than half a spacing away. The
  last lemmas give the value of \<open>round64\<close> from an exponent and a significand that
  are checked by arithmetic alone.
\<close>

lemma bit_length_bounds:
  "0 < n \<Longrightarrow> 1 \<le> bit_length n \<and> 2 ^ nat (bit_length n - 1) \<le> n \<and> n < 2 ^ nat (bit_length n)"
proof (induction n rule: bit_length.induct)
  case (1 n)
  show ?case
  proof (cases "n div 2 = 0")
    case True
    with "1.prems" have n1: "n = 1" by presburger
    have "bit_length 1 = 1"
      by (simp add: bit_length.simps [of 1] bit_length.simps [of 0])
    with n1 show ?thesis by simp
  next
    case False
    with "1.prems" have m: "0 < n div 2" by presburger
    define k where "k = bit_length (n div 2)"
    from "1.IH" "1.prems" m
    have ih: "1 \<le> k" "2 ^ nat (k - 1) \<le> n div 2" "n div 2 < 2 ^ nat k"
      by (simp_all add: k_def)
    have bl: "bit_length n = 1 + k"
      using "1.prems" by (simp add: bit_length.simps [of n] k_def)
    have "nat k = Suc (nat (k - 1))" using ih(1) by simp
    then have pk: "(2::int) ^ nat k = 2 * 2 ^ nat (k - 1)" by (metis power_Suc)
    have "nat (1 + k) = Suc (nat k)" using ih(1) by simp
    then have pk1: "(2::int) ^ nat (1 + k) = 2 * 2 ^ nat k" by (metis power_Suc)
    have d: "2 * (n div 2) \<le> n" "n < 2 * (n div 2) + 2" by presburger+
    have u: "n div 2 + 1 \<le> 2 ^ nat k" using ih(3) by simp
    have lower: "2 ^ nat k \<le> n" unfolding pk using ih(2) d(1) by linarith
    have upper: "n < 2 ^ nat (1 + k)" unfolding pk1 using u d(2) by linarith
    have "1 + k - 1 = k" by simp
    then have "2 ^ nat (1 + k - 1) \<le> n" using lower by simp
    moreover have "1 \<le> 1 + k" using ih(1) by simp
    ultimately show ?thesis unfolding bl using upper by blast
  qed
qed

lemma pow2_nat: "0 \<le> k \<Longrightarrow> pow2 k = 2 ^ nat k"
  by (simp add: pow2_def power_int_def)

lemma pow2_neg: "0 \<le> k \<Longrightarrow> pow2 (- k) = 1 / 2 ^ nat k"
  by (simp add: pow2_def power_int_def inverse_eq_divide power_one_over)

lemma pow2_pos: "0 < pow2 k"
  by (simp add: pow2_def)

lemma pow2_add: "pow2 (i + j) = pow2 i * pow2 j"
  by (simp add: pow2_def power_int_add)

lemma pow2_mono: "i \<le> j \<Longrightarrow> pow2 i \<le> pow2 j"
  by (simp add: pow2_def power_int_increasing)

lemma pow2_strict_mono: "i < j \<Longrightarrow> pow2 i < pow2 j"
  by (simp add: pow2_def power_int_strict_increasing)

lemma pow2_split: "pow2 (e + 1) = pow2 53 * pow2 (e - 52)"
proof -
  have "pow2 (53 + (e - 52)) = pow2 53 * pow2 (e - 52)" by (rule pow2_add)
  moreover have "53 + (e - 52) = e + 1" by simp
  ultimately show ?thesis by simp
qed

lemma pow2_numeral:
  "pow2 0 = 1" "pow2 1 = 2" "pow2 (- 1) = 1 / 2"
  "pow2 (numeral k) = 2 ^ numeral k" "pow2 (- numeral k) = 1 / 2 ^ numeral k"
  by (simp_all add: pow2_def power_int_def inverse_eq_divide power_one_over)

lemma floor_log2_bounds:
  assumes "0 < a"
  shows "pow2 (floor_log2 a) \<le> a \<and> a < pow2 (floor_log2 a + 1)"
proof (cases "1 \<le> a")
  case True
  define n where "n = \<lfloor>a\<rfloor>"
  have n_pos: "0 < n" using True by (simp add: n_def)
  define k where "k = bit_length n"
  from bit_length_bounds [OF n_pos]
  have b: "1 \<le> k" "2 ^ nat (k - 1) \<le> n" "n < 2 ^ nat k" by (simp_all add: k_def)
  have fl: "floor_log2 a = k - 1" using True by (simp add: floor_log2_def n_def k_def)
  have "of_int n \<le> a" "a < of_int n + 1" unfolding n_def by linarith+
  moreover have "(2::rat) ^ nat (k - 1) \<le> of_int n"
    using b(2) by (metis of_int_le_iff of_int_numeral of_int_power)
  moreover have "of_int n + 1 \<le> (2::rat) ^ nat k"
  proof -
    have "n + 1 \<le> 2 ^ nat k" using b(3) by simp
    then have "of_int (n + 1) \<le> (of_int (2 ^ nat k) :: rat)" by (simp only: of_int_le_iff)
    then show ?thesis by simp
  qed
  ultimately have "2 ^ nat (k - 1) \<le> a" "a < 2 ^ nat k" by linarith+
  then show ?thesis using b(1) by (simp add: fl pow2_nat)
next
  case False
  then have a1: "a < 1" by simp
  define b where "b = 1 / a"
  have b1: "1 < b" using assms a1 by (simp add: b_def)
  define m where "m = \<lceil>b\<rceil>"
  have m2: "0 < m - 1"
  proof -
    have "1 < m" using b1 unfolding m_def by (simp add: less_ceiling_iff)
    then show ?thesis by simp
  qed
  define k where "k = bit_length (m - 1)"
  from bit_length_bounds [OF m2]
  have bb: "1 \<le> k" "2 ^ nat (k - 1) \<le> m - 1" "m - 1 < 2 ^ nat k" by (simp_all add: k_def)
  have fl: "floor_log2 a = - k" using False by (simp add: floor_log2_def b_def m_def k_def)
  have c1: "b \<le> of_int m" "of_int m - 1 < b" unfolding m_def by linarith+
  have up: "of_int m \<le> (2::rat) ^ nat k"
  proof -
    have "m \<le> 2 ^ nat k" using bb(3) by simp
    then have "of_int m \<le> (of_int (2 ^ nat k) :: rat)" by (simp only: of_int_le_iff)
    then show ?thesis by simp
  qed
  have lo: "(2::rat) ^ nat (k - 1) \<le> of_int m - 1"
  proof -
    have "of_int (2 ^ nat (k - 1)) \<le> (of_int (m - 1) :: rat)" using bb(2) by (simp only: of_int_le_iff)
    then show ?thesis by simp
  qed
  have b_le: "b \<le> 2 ^ nat k" using c1(1) up by linarith
  have b_gt: "2 ^ nat (k - 1) < b" using c1(2) lo by linarith
  have "1 / 2 ^ nat k \<le> a"
  proof -
    have "1 / 2 ^ nat k \<le> 1 / b" using b_le b1 by (simp add: frac_le)
    then show ?thesis using assms by (simp add: b_def)
  qed
  moreover have "a < 1 / 2 ^ nat (k - 1)"
  proof -
    have "1 / b < 1 / 2 ^ nat (k - 1)" using b_gt by (simp add: frac_less2)
    then show ?thesis using assms by (simp add: b_def)
  qed
  moreover have "pow2 (- k) = 1 / 2 ^ nat k" using bb(1) by (simp add: pow2_neg)
  moreover have "pow2 (- k + 1) = 1 / 2 ^ nat (k - 1)"
  proof -
    have "pow2 (- (k - 1)) = 1 / 2 ^ nat (k - 1)" using bb(1) by (intro pow2_neg) simp
    then show ?thesis by simp
  qed
  ultimately show ?thesis by (simp add: fl)
qed

lemma floor_log2_unique:
  assumes "0 < a" "pow2 e \<le> a" "a < pow2 (e + 1)"
  shows "floor_log2 a = e"
proof -
  from floor_log2_bounds [OF assms(1)]
  have b: "pow2 (floor_log2 a) \<le> a" "a < pow2 (floor_log2 a + 1)" by simp_all
  have "\<not> floor_log2 a < e"
  proof
    assume "floor_log2 a < e"
    then have "pow2 (floor_log2 a + 1) \<le> pow2 e" by (intro pow2_mono) simp
    with b(2) assms(2) show False by linarith
  qed
  moreover have "\<not> e < floor_log2 a"
  proof
    assume "e < floor_log2 a"
    then have "pow2 (e + 1) \<le> pow2 (floor_log2 a)" by (intro pow2_mono) simp
    with b(1) assms(3) show False by linarith
  qed
  ultimately show ?thesis by simp
qed

lemma round_half_even_near:
  assumes "\<bar>t - of_int n\<bar> < 1 / 2"
  shows "round_half_even t = n"
proof -
  have lo: "of_int n - 1 / 2 < t" and hi: "t < of_int n + 1 / 2" using assms by linarith+
  show ?thesis
  proof (cases "of_int n \<le> t")
    case True
    then have "\<lfloor>t\<rfloor> = n" using hi by (intro floor_unique) linarith+
    then show ?thesis using hi by (simp add: round_half_even_def Let_def)
  next
    case False
    then have "of_int (n - 1) \<le> t" "t < of_int (n - 1) + 1" using lo by simp_all
    then have f: "\<lfloor>t\<rfloor> = n - 1" by (rule floor_unique)
    have "1 / 2 < t - of_int (n - 1)" using lo by simp
    then show ?thesis using f by (simp add: round_half_even_def Let_def)
  qed
qed

lemma of_int_le_pow2_53:
  assumes "(of_int n :: rat) < pow2 53 + 1 / 2"
  shows "(of_int n :: rat) \<le> pow2 53"
proof -
  have p: "pow2 53 = (of_int (2 ^ 53) :: rat)" by (simp add: pow2_nat)
  have "(of_int n :: rat) < of_int (2 ^ 53 + 1)" using assms unfolding p by simp
  then have "n < 2 ^ 53 + 1" by (simp only: of_int_less_iff)
  then have "n \<le> 2 ^ 53" by simp
  then have "(of_int n :: rat) \<le> of_int (2 ^ 53)" by (simp only: of_int_le_iff)
  then show ?thesis unfolding p .
qed

lemma round64_unfold:
  assumes "0 < x" "floor_log2 x = e" "- 1022 \<le> e" "round_half_even (x / pow2 (e - 52)) = n"
    and "\<not> pow2 1024 \<le> of_int n * pow2 (e - 52)"
  shows "round64 x = Finite (of_int n * pow2 (e - 52))"
proof -
  have ne: "x \<noteq> 0" and ab: "\<bar>x\<bar> = x" using assms(1) by simp_all
  have mx: "max e (- 1022) = e" using assms(3) by simp
  show ?thesis
    unfolding round64_def Let_def ab assms(2) mx assms(4)
    using ne assms(1) assms(5) by (simp only: if_False if_True)
qed

lemma round64_normal:
  assumes "0 < x" "pow2 e \<le> x" "x < pow2 (e + 1)" "- 1022 \<le> e" "e \<le> 1022"
    and "\<bar>x / pow2 (e - 52) - of_int n\<bar> < 1 / 2"
  shows "round64 x = Finite (of_int n * pow2 (e - 52))"
proof -
  have fl: "floor_log2 x = e" using assms(1-3) by (rule floor_log2_unique)
  have rn: "round_half_even (x / pow2 (e - 52)) = n" using assms(6) by (rule round_half_even_near)
  have "x / pow2 (e - 52) < pow2 53"
  proof -
    have "pow2 (e + 1) = pow2 53 * pow2 (e - 52)" by (rule pow2_split)
    with assms(3) have "x < pow2 53 * pow2 (e - 52)" by simp
    then show ?thesis using pow2_pos [of "e - 52"] by (simp add: pos_divide_less_eq)
  qed
  with assms(6) have "of_int n < pow2 53 + 1 / 2" by linarith
  then have n53: "of_int n \<le> pow2 53" by (rule of_int_le_pow2_53)
  have "of_int n * pow2 (e - 52) \<le> pow2 53 * pow2 (e - 52)"
    using n53 pow2_pos [of "e - 52"] by (simp add: mult_right_mono)
  also have "\<dots> = pow2 (e + 1)" by (rule pow2_split [symmetric])
  also have "\<dots> < pow2 1024" using assms(5) by (intro pow2_strict_mono) simp
  finally have no_overflow: "\<not> pow2 1024 \<le> of_int n * pow2 (e - 52)" by simp
  show ?thesis
    using assms(1) fl assms(4) rn no_overflow by (rule round64_unfold)
qed

lemma round64_neg:
  assumes "0 < x" "round64 x = Finite y"
  shows "round64 (- x) = Finite (- y)"
proof -
  have "x \<noteq> 0" "\<not> 0 < - x" "\<bar>- x\<bar> = \<bar>x\<bar>" using assms(1) by simp_all
  then show ?thesis
    using assms by (auto simp: round64_def Let_def split: if_splits)
qed

subsection \<open>The substring test and the number tokens\<close>

text \<open>\<open>contains\<close> is the substring relation.\<close>

lemma starts_with_iff: "starts_with s p \<longleftrightarrow> (\<exists>ss. s = p @ ss)"
  by (induction s p rule: starts_with.induct) auto

lemma contains_iff: "contains hay needle \<longleftrightarrow> (\<exists>ps ss. hay = ps @ needle @ ss)"
proof (induction hay)
  case Nil
  then show ?case by simp
next
  case (Cons c cs)
  show ?case
  proof
    assume "contains (c # cs) needle"
    then consider "starts_with (c # cs) needle" | "contains cs needle" by auto
    then show "\<exists>ps ss. c # cs = ps @ needle @ ss"
    proof cases
      case 1
      then obtain ss where "c # cs = needle @ ss" by (auto simp: starts_with_iff)
      then have "c # cs = [] @ needle @ ss" by simp
      then show ?thesis by blast
    next
      case 2
      then obtain ps ss where "cs = ps @ needle @ ss" using Cons.IH by blast
      then have "c # cs = (c # ps) @ needle @ ss" by simp
      then show ?thesis by blast
    qed
  next
    assume "\<exists>ps ss. c # cs = ps @ needle @ ss"
    then obtain ps ss where eq: "c # cs = ps @ needle @ ss" by blast
    show "contains (c # cs) needle"
    proof (cases ps)
      case Nil
      with eq have "starts_with (c # cs) needle" by (auto simp: starts_with_iff)
      then show ?thesis by simp
    next
      case (Cons p ps')
      with eq have "cs = ps' @ needle @ ss" by simp
      then have "contains cs needle" using Cons.IH by blast
      then show ?thesis by simp
    qed
  qed
qed

text \<open>
  \<open>float\<close> reads every token that the number pattern matches, so the \<open>ValueError\<close>
  branch of the handler is never taken.
\<close>

lemma not_digit_minus: "\<not> is_digit (CHR ''-'')" and not_digit_dot: "\<not> is_digit (CHR ''.'')"
  by (simp_all add: is_digit_def)

lemma takeWhile_dropWhile_same: "takeWhile P (dropWhile P xs) = []"
  by (induction xs) auto

lemma takeWhile_digits_then:
  assumes "\<forall>c \<in> set ds. is_digit c" and "tl_part = [] \<or> \<not> is_digit (hd tl_part)"
  shows "takeWhile is_digit (ds @ tl_part) = ds" and "dropWhile is_digit (ds @ tl_part) = tl_part"
  using assms by (cases tl_part; simp add: takeWhile_append2 dropWhile_append2)+

lemma match_number_float:
  assumes "match_number s = Some (m, rest)"
  shows "\<exists>v. float_of_str m = Inr v"
proof -
  define s1 where "s1 = drop_opt (CHR ''-'') s"
  define ds where "ds = takeWhile is_digit s1"
  define s2 where "s2 = dropWhile is_digit s1"
  define dot where "dot = take_opt (CHR ''.'') s2"
  define s3 where "s3 = drop_opt (CHR ''.'') s2"
  define fs where "fs = takeWhile is_digit s3"
  define body where "body = ds @ dot @ fs"
  from assms have ne: "ds \<noteq> []" and m: "m = take_opt (CHR ''-'') s @ body"
    by (simp_all add: match_number_def Let_def s1_def s2_def s3_def ds_def dot_def fs_def body_def
          split: if_splits)
  have ds_digits: "\<forall>c \<in> set ds. is_digit c"
    unfolding ds_def by (auto dest: set_takeWhileD)
  have fs_digits: "list_all is_digit fs"
    unfolding fs_def by (auto simp: list_all_iff dest: set_takeWhileD)
  have dot_cases: "(dot = [] \<and> fs = []) \<or> dot = [CHR ''.'']"
  proof (cases "dot = []")
    case True
    then have "s3 = s2"
      by (auto simp: dot_def s3_def take_opt_def drop_opt_def split: list.splits if_splits)
    then have "fs = []" unfolding fs_def s2_def by (simp add: takeWhile_dropWhile_same)
    with True show ?thesis by simp
  next
    case False
    then show ?thesis by (auto simp: dot_def take_opt_def split: list.splits if_splits)
  qed
  have hd_digit: "is_digit (hd body)"
    using ne ds_digits by (cases ds) (auto simp: body_def)
  have body_ne: "body \<noteq> []" using ne by (simp add: body_def)
  have strip_sign: "drop_opt (CHR ''-'') m = body"
  proof (cases "take_opt (CHR ''-'') s = []")
    case True
    with m have "m = body" by simp
    moreover have "drop_opt (CHR ''-'') body = body"
      using hd_digit body_ne not_digit_minus by (cases body) (auto simp: drop_opt_def)
    ultimately show ?thesis by simp
  next
    case False
    then have "take_opt (CHR ''-'') s = [CHR ''-'']"
      by (auto simp: take_opt_def split: list.splits if_splits)
    with m show ?thesis by (simp add: drop_opt_def)
  qed
  have tail_ok: "dot @ fs = [] \<or> \<not> is_digit (hd (dot @ fs))"
    using dot_cases not_digit_dot by auto
  have ip: "takeWhile is_digit body = ds" and r: "dropWhile is_digit body = dot @ fs"
    unfolding body_def using takeWhile_digits_then [OF ds_digits tail_ok] by simp_all
  have r_shape: "dot @ fs = [] \<or> take_opt (CHR ''.'') (dot @ fs) \<noteq> []"
    using dot_cases by (auto simp: take_opt_def)
  have fp: "drop_opt (CHR ''.'') (dot @ fs) = fs"
    using dot_cases by (auto simp: drop_opt_def)
  show ?thesis
    unfolding float_of_str_def Let_def strip_sign ip r fp
    using ne fs_digits r_shape by auto
qed

lemma findall_number_matches:
  "x \<in> set (findall_number s) \<Longrightarrow> \<exists>s' rest. match_number s' = Some (x, rest)"
proof (induction s rule: findall_number.induct)
  case 1
  then show ?case by simp
next
  case (2 c cs)
  then show ?case by (auto split: option.splits)
qed

lemma findall_number_float:
  "x \<in> set (findall_number s) \<Longrightarrow> \<exists>v. float_of_str x = Inr v"
  using findall_number_matches match_number_float by blast

subsection \<open>Substring match comes first\<close>

text \<open>
  Claim C9, as amended. For every non-empty response and every expected answer: if the
  lowercased, trimmed expected string is a substring of the lowercased, trimmed
  response, the response is marked correct, whatever the tolerance, and before any
  number is looked for. The first statement of \<open>validate_response\<close> returns
  \<open>False\<close> for an empty response, so the claim needs the response to be non-empty.
\<close>

theorem substring_match_first:
  assumes "r \<noteq> []"
    and "contains (strip (lower r)) (strip (lower e))"
  shows "validate_response (Some r) e tolerance"
  using assms by (simp add: validate_response_def Let_def)

theorem substring_match_first_witness:
  "''The capital of France is Paris.'' \<noteq> []
   \<and> contains (strip (lower ''The capital of France is Paris.'')) (strip (lower ''Paris''))
   \<and> validate_response (Some ''The capital of France is Paris.'') ''Paris'' (Finite 0)"
proof -
  have ne: "''The capital of France is Paris.'' \<noteq> []" by simp
  have sub: "contains (strip (lower ''The capital of France is Paris.'')) (strip (lower ''Paris''))"
    by code_simp
  from ne sub substring_match_first [OF ne sub, of "Finite 0"] show ?thesis by blast
qed

text \<open>
  The claim as stated, for every response, fails at the empty response with an empty
  expected answer: the empty string is a substring of the empty string, and the
  response is marked incorrect.
\<close>

theorem empty_response_counterexample:
  "contains (strip (lower [])) (strip (lower []))
   \<and> \<not> validate_response (Some []) [] default_tolerance"
  by (simp add: validate_response_def strip_def lower_def)

subsection \<open>An expected value of zero\<close>

text \<open>
  Claim C5. For every response string and tolerance, when the numeric comparison is
  reached (the substring test failed and both strings hold a number) and the expected
  value is zero, the division raises \<open>ZeroDivisionError\<close> in the \<open>try\<close> block, the
  handler catches it, and \<open>validate_response\<close> returns \<open>False\<close>. The result type of
  \<open>validate_response\<close> is \<open>bool\<close>: no exception leaves it.
\<close>

theorem zero_expected_not_correct:
  assumes "\<not> contains (strip (lower r)) (strip (lower e))"
    and "findall_number (strip (lower r)) = rn # rns"
    and "findall_number (strip (lower e)) = en # ens"
    and "float_of_str en = Inr (Finite 0)"
  shows "tolerance_check (strip (lower r)) (strip (lower e)) tolerance = Inl ZeroDivisionError
         \<and> validate_response (Some r) e tolerance = False"
proof -
  have "rn \<in> set (findall_number (strip (lower r)))" using assms(2) by simp
  then obtain rv where rv: "float_of_str rn = Inr rv" using findall_number_float by blast
  have raised: "tolerance_check (strip (lower r)) (strip (lower e)) tolerance = Inl ZeroDivisionError"
    using assms(2-4) rv by (simp add: tolerance_check_def fdiv_def)
  then show ?thesis using assms(1) by (simp add: validate_response_def Let_def)
qed

theorem zero_expected_not_correct_witness:
  "\<not> contains (strip (lower ''The answer is 5 degrees'')) (strip (lower ''0''))
   \<and> findall_number (strip (lower ''The answer is 5 degrees'')) = [''5'']
   \<and> findall_number (strip (lower ''0'')) = [''0'']
   \<and> float_of_str ''0'' = Inr (Finite 0)
   \<and> tolerance_check (strip (lower ''The answer is 5 degrees'')) (strip (lower ''0'')) default_tolerance
       = Inl ZeroDivisionError
   \<and> validate_response (Some ''The answer is 5 degrees'') ''0'' default_tolerance = False"
proof -
  have a: "\<not> contains (strip (lower ''The answer is 5 degrees'')) (strip (lower ''0''))"
    by code_simp
  have b: "findall_number (strip (lower ''The answer is 5 degrees'')) = ''5'' # []"
    by code_simp
  have c: "findall_number (strip (lower ''0'')) = ''0'' # []"
    by code_simp
  have d: "float_of_str ''0'' = Inr (Finite 0)"
    by (simp add: float_of_str_def take_opt_def drop_opt_def is_digit_def digits_val_def digit_val_def round64_def)
  from a b c d zero_expected_not_correct [OF a b c d, of default_tolerance] show ?thesis by simp
qed

subsection \<open>The relative difference\<close>

text \<open>
  Claim C3, as amended. For every response and every expected answer where the
  substring test fails, both strings hold a number token and the expected value is
  positive, the response is marked correct exactly when
  \<open>|response_val - expected_val| / |expected_val| \<le> tolerance\<close>, with every operation
  in double-precision arithmetic, as Python evaluates it; the tolerance of a query
  without one is \<open>0.05\<close>. (The source divides by \<open>expected_val\<close>, not by its absolute
  value; for a positive expected value the two agree.)
\<close>

theorem relative_difference_within_tolerance:
  assumes "\<not> contains (strip (lower r)) (strip (lower e))"
    and "findall_number (strip (lower r)) = rn # rns"
    and "findall_number (strip (lower e)) = en # ens"
    and "float_of_str rn = Inr response_val"
    and "float_of_str en = Inr expected_val"
    and "is_positive expected_val"
  shows "(\<exists>difference. relative_difference response_val expected_val = Inr difference
            \<and> (validate_response (Some r) e tolerance \<longleftrightarrow> fle difference tolerance))
         \<and> query_tolerance Missing = Inr default_tolerance"
proof -
  have "r \<noteq> []"
  proof
    assume "r = []"
    then have "findall_number (strip (lower r)) = []" by (simp add: strip_def lower_def)
    with assms(2) show False by simp
  qed
  moreover have "fabs expected_val = expected_val" "expected_val \<noteq> Finite 0"
    using assms(6) by (cases expected_val; simp add: is_positive_def)+
  ultimately show ?thesis
    using assms(1-5)
    by (simp add: validate_response_def tolerance_check_def relative_difference_def fdiv_def
        query_tolerance_def Let_def)
qed

theorem relative_difference_within_tolerance_witness:
  "\<not> contains (strip (lower ''about 9.79 m/s^2'')) (strip (lower ''9.8''))
   \<and> findall_number (strip (lower ''about 9.79 m/s^2'')) = [''9.79'', ''2'']
   \<and> findall_number (strip (lower ''9.8'')) = [''9.8'']
   \<and> float_of_str ''9.79'' = Inr (Finite (1377820010998661 / 140737488355328))
   \<and> float_of_str ''9.8'' = Inr (Finite (2758454771764429 / 281474976710656))
   \<and> is_positive (Finite (2758454771764429 / 281474976710656))
   \<and> validate_response (Some ''about 9.79 m/s^2'') ''9.8'' default_tolerance
   \<and> \<not> validate_response (Some ''about 9.79 m/s^2'') ''9.8'' (round64 (1 / 1000))"
proof -
  have nc: "\<not> contains (strip (lower ''about 9.79 m/s^2'')) (strip (lower ''9.8''))"
    by code_simp
  have fr: "findall_number (strip (lower ''about 9.79 m/s^2'')) = ''9.79'' # [''2'']"
    by code_simp
  have fe: "findall_number (strip (lower ''9.8'')) = ''9.8'' # []"
    by code_simp
  have pr_r: "round64 (979 / 100) = Finite (1377820010998661 / 140737488355328)"
    using round64_normal [of "979 / 100" "3" "5511280043994644"] by (simp add: pow2_numeral)
  have pr: "float_of_str ''9.79'' = Inr (Finite (1377820010998661 / 140737488355328))"
    by (simp add: float_of_str_def take_opt_def drop_opt_def is_digit_def digits_val_def digit_val_def pr_r)
  have pe_r: "round64 (49 / 5) = Finite (2758454771764429 / 281474976710656)"
    using round64_normal [of "49 / 5" "3" "5516909543528858"] by (simp add: pow2_numeral)
  have pe: "float_of_str ''9.8'' = Inr (Finite (2758454771764429 / 281474976710656))"
    by (simp add: float_of_str_def take_opt_def drop_opt_def is_digit_def digits_val_def digit_val_def pe_r)
  have sb_d: "(1377820010998661 / 140737488355328) - (2758454771764429 / 281474976710656) = (- (2814749767107 / 281474976710656) :: rat)" by simp
  have sb_r_abs: "round64 (2814749767107 / 281474976710656) = Finite (2814749767107 / 281474976710656)"
    using round64_normal [of "2814749767107 / 281474976710656" "- 7" "5764607523035136"] by (simp add: pow2_numeral)
  have sb_r: "round64 (- (2814749767107 / 281474976710656)) = Finite (- (2814749767107 / 281474976710656))"
    using round64_neg [OF _ sb_r_abs] by simp
  have sb: "fsub (Finite (1377820010998661 / 140737488355328)) (Finite (2758454771764429 / 281474976710656)) = Finite (- (2814749767107 / 281474976710656))"
    by (simp only: fsub.simps sb_d sb_r)
  have ab: "fabs (Finite (- (2814749767107 / 281474976710656))) = Finite (2814749767107 / 281474976710656)" by simp
  have dv_d: "(2814749767107 / 281474976710656) / (2758454771764429 / 281474976710656) = (2814749767107 / 2758454771764429 :: rat)" by simp
  have dv_r: "round64 (2814749767107 / 2758454771764429) = Finite (4705802059620519 / 4611686018427387904)"
    using round64_normal [of "2814749767107 / 2758454771764429" "- 10" "4705802059620519"] by (simp add: pow2_numeral)
  have dv_q: "float_quotient (Finite (2814749767107 / 281474976710656)) (Finite (2758454771764429 / 281474976710656)) = Finite (4705802059620519 / 4611686018427387904)"
    by (simp only: float_quotient.simps dv_d dv_r)
  have dv: "fdiv (Finite (2814749767107 / 281474976710656)) (Finite (2758454771764429 / 281474976710656)) = Inr (Finite (4705802059620519 / 4611686018427387904))"
    unfolding fdiv_def dv_q by simp
  have tl0_r: "round64 (1 / 20) = Finite (3602879701896397 / 72057594037927936)"
    using round64_normal [of "1 / 20" "- 5" "7205759403792794"] by (simp add: pow2_numeral)
  have tl0: "default_tolerance = Finite (3602879701896397 / 72057594037927936)"
    by (simp add: default_tolerance_def tl0_r)
  have cm0: "fle (Finite (4705802059620519 / 4611686018427387904)) default_tolerance = True"
    unfolding tl0 by simp
  have tl1_r: "round64 (1 / 1000) = Finite (1152921504606847 / 1152921504606846976)"
    using round64_normal [of "1 / 1000" "- 10" "4611686018427388"] by (simp add: pow2_numeral)
  have tl1: "round64 (1 / 1000) = Finite (1152921504606847 / 1152921504606846976)"
    by (simp add: tl1_r)
  have cm1: "fle (Finite (4705802059620519 / 4611686018427387904)) (round64 (1 / 1000)) = False"
    unfolding tl1 by simp
  have ps: "is_positive (Finite (2758454771764429 / 281474976710656))" by (simp add: is_positive_def)
  have rd: "relative_difference (Finite (1377820010998661 / 140737488355328)) (Finite (2758454771764429 / 281474976710656))
      = Inr (Finite (4705802059620519 / 4611686018427387904))"
    unfolding relative_difference_def sb by (simp add: dv)
  from relative_difference_within_tolerance [OF nc fr fe pr pe ps, of default_tolerance]
  have h: "validate_response (Some ''about 9.79 m/s^2'') ''9.8'' default_tolerance"
    unfolding rd by (simp add: cm0 del: fle.simps)
  from relative_difference_within_tolerance [OF nc fr fe pr pe ps, of "round64 (1 / 1000)"]
  have i: "\<not> validate_response (Some ''about 9.79 m/s^2'') ''9.8'' (round64 (1 / 1000))"
    unfolding rd by (simp add: cm1 del: fle.simps)
  from nc fr fe pr pe ps h i show ?thesis by simp
qed

text \<open>
  The example of the claim as stated fails: the text \<open>9.8\<close> is a substring of every
  response that contains \<open>9.81\<close>, so such a response is marked correct by the
  substring test at every tolerance, also at \<open>0.001\<close>, where the relative difference
  is above the tolerance.
\<close>

theorem substring_hides_tolerance_counterexample:
  "validate_response (Some ''about 9.81 m/s^2'') ''9.8'' (round64 (1 / 1000))
   \<and> \<not> \<bar>981 / 100 - 98 / 10\<bar> / \<bar>98 / 10\<bar> \<le> (1 / 1000 :: rat)"
proof -
  have "contains (strip (lower ''about 9.81 m/s^2'')) (strip (lower ''9.8''))"
    by code_simp
  then have "validate_response (Some ''about 9.81 m/s^2'') ''9.8'' (round64 (1 / 1000))"
    by (simp add: validate_response_def Let_def)
  then show ?thesis by simp
qed

text \<open>
  The rounding decides at the boundary: the decimal numbers \<open>2.1\<close> and \<open>2.0\<close> differ
  by \<open>0.05\<close> of the second, but the doubles that Python computes give a quotient above
  the double \<open>0.05\<close>, and the response is marked incorrect.
\<close>

lemma boundary_rounding_example:
  "\<not> validate_response (Some ''2.1'') ''2.0'' default_tolerance"
proof -
  have nc: "\<not> contains (strip (lower ''2.1'')) (strip (lower ''2.0''))"
    by code_simp
  have fr: "findall_number (strip (lower ''2.1'')) = ''2.1'' # []"
    by code_simp
  have fe: "findall_number (strip (lower ''2.0'')) = ''2.0'' # []"
    by code_simp
  have pr_r: "round64 (21 / 10) = Finite (4728779608739021 / 2251799813685248)"
    using round64_normal [of "21 / 10" "1" "4728779608739021"] by (simp add: pow2_numeral)
  have pr: "float_of_str ''2.1'' = Inr (Finite (4728779608739021 / 2251799813685248))"
    by (simp add: float_of_str_def take_opt_def drop_opt_def is_digit_def digits_val_def digit_val_def pr_r)
  have pe_r: "round64 2 = Finite 2"
    using round64_normal [of "2" "1" "4503599627370496"] by (simp add: pow2_numeral)
  have pe: "float_of_str ''2.0'' = Inr (Finite 2)"
    by (simp add: float_of_str_def take_opt_def drop_opt_def is_digit_def digits_val_def digit_val_def pe_r)
  have sb_d: "(4728779608739021 / 2251799813685248) - 2 = (225179981368525 / 2251799813685248 :: rat)" by simp
  have sb_r: "round64 (225179981368525 / 2251799813685248) = Finite (225179981368525 / 2251799813685248)"
    using round64_normal [of "225179981368525 / 2251799813685248" "- 4" "7205759403792800"] by (simp add: pow2_numeral)
  have sb: "fsub (Finite (4728779608739021 / 2251799813685248)) (Finite 2) = Finite (225179981368525 / 2251799813685248)"
    by (simp only: fsub.simps sb_d sb_r)
  have ab: "fabs (Finite (225179981368525 / 2251799813685248)) = Finite (225179981368525 / 2251799813685248)" by simp
  have dv_d: "(225179981368525 / 2251799813685248) / 2 = (225179981368525 / 4503599627370496 :: rat)" by simp
  have dv_r: "round64 (225179981368525 / 4503599627370496) = Finite (225179981368525 / 4503599627370496)"
    using round64_normal [of "225179981368525 / 4503599627370496" "- 5" "7205759403792800"] by (simp add: pow2_numeral)
  have dv_q: "float_quotient (Finite (225179981368525 / 2251799813685248)) (Finite 2) = Finite (225179981368525 / 4503599627370496)"
    by (simp only: float_quotient.simps dv_d dv_r)
  have dv: "fdiv (Finite (225179981368525 / 2251799813685248)) (Finite 2) = Inr (Finite (225179981368525 / 4503599627370496))"
    unfolding fdiv_def dv_q by simp
  have tl0_r: "round64 (1 / 20) = Finite (3602879701896397 / 72057594037927936)"
    using round64_normal [of "1 / 20" "- 5" "7205759403792794"] by (simp add: pow2_numeral)
  have tl0: "default_tolerance = Finite (3602879701896397 / 72057594037927936)"
    by (simp add: default_tolerance_def tl0_r)
  have cm0: "fle (Finite (225179981368525 / 4503599627370496)) default_tolerance = False"
    unfolding tl0 by simp
  have tc0: "tolerance_check (strip (lower ''2.1'')) (strip (lower ''2.0'')) default_tolerance = Inr False"
    by (simp add: tolerance_check_def fr fe pr pe sb dv cm0 del: fsub.simps fle.simps)
  show ?thesis by (simp add: validate_response_def Let_def nc tc0)
qed

text \<open>
  With a negative expected value the quotient is negative or zero, and every response
  that holds a number is within a tolerance that is not negative.
\<close>

lemma negative_expected_value:
  "validate_response (Some ''100'') ''-5'' default_tolerance"
proof -
  have nc: "\<not> contains (strip (lower ''100'')) (strip (lower ''-5''))"
    by code_simp
  have fr: "findall_number (strip (lower ''100'')) = ''100'' # []"
    by code_simp
  have fe: "findall_number (strip (lower ''-5'')) = ''-5'' # []"
    by code_simp
  have pr_r: "round64 100 = Finite 100"
    using round64_normal [of "100" "6" "7036874417766400"] by (simp add: pow2_numeral)
  have pr: "float_of_str ''100'' = Inr (Finite 100)"
    by (simp add: float_of_str_def take_opt_def drop_opt_def is_digit_def digits_val_def digit_val_def pr_r)
  have pe_r_abs: "round64 5 = Finite 5"
    using round64_normal [of "5" "2" "5629499534213120"] by (simp add: pow2_numeral)
  have pe_r: "round64 (- 5) = Finite (- 5)"
    using round64_neg [OF _ pe_r_abs] by simp
  have pe: "float_of_str ''-5'' = Inr (Finite (- 5))"
    by (simp add: float_of_str_def take_opt_def drop_opt_def is_digit_def digits_val_def digit_val_def pe_r)
  have sb_d: "100 - (- 5) = (105 :: rat)" by simp
  have sb_r: "round64 105 = Finite 105"
    using round64_normal [of "105" "6" "7388718138654720"] by (simp add: pow2_numeral)
  have sb: "fsub (Finite 100) (Finite (- 5)) = Finite 105"
    by (simp only: fsub.simps sb_d sb_r)
  have ab: "fabs (Finite 105) = Finite 105" by simp
  have dv_d: "105 / (- 5) = (- 21 :: rat)" by simp
  have dv_r_abs: "round64 21 = Finite 21"
    using round64_normal [of "21" "4" "5910974510923776"] by (simp add: pow2_numeral)
  have dv_r: "round64 (- 21) = Finite (- 21)"
    using round64_neg [OF _ dv_r_abs] by simp
  have dv_q: "float_quotient (Finite 105) (Finite (- 5)) = Finite (- 21)"
    by (simp only: float_quotient.simps dv_d dv_r)
  have dv: "fdiv (Finite 105) (Finite (- 5)) = Inr (Finite (- 21))"
    unfolding fdiv_def dv_q by simp
  have tl0_r: "round64 (1 / 20) = Finite (3602879701896397 / 72057594037927936)"
    using round64_normal [of "1 / 20" "- 5" "7205759403792794"] by (simp add: pow2_numeral)
  have tl0: "default_tolerance = Finite (3602879701896397 / 72057594037927936)"
    by (simp add: default_tolerance_def tl0_r)
  have cm0: "fle (Finite (- 21)) default_tolerance = True"
    unfolding tl0 by simp
  have tc0: "tolerance_check (strip (lower ''100'')) (strip (lower ''-5'')) default_tolerance = Inr True"
    by (simp add: tolerance_check_def fr fe pr pe sb dv cm0 del: fsub.simps fle.simps)
  show ?thesis by (simp add: validate_response_def Let_def nc tc0)
qed

subsection \<open>Queries flagged exact\<close>




section \<open>Properties of the aggregator\<close>

subsection \<open>The counters in closed form\<close>













subsection \<open>Accuracy is a ratio in the unit interval\<close>



lemma benchmark_query_one_result:
  "benchmark_query query family r1 r2 r3 = Inr result \<Longrightarrow> one_result_per_system result"
  by (auto simp: benchmark_query_def one_result_per_system_def split: sum.splits)





subsection \<open>The runner and the analysis agree on the per-family accuracy\<close>

text \<open>
  Claim C10. For every table of families in which each query carries exactly one
  result per system, the per-family accuracy that the analysis stage recomputes equals,
  for every family and every system, the accuracy that the runner computed for the
  family's queries.
\<close>

theorem family_accuracy_agrees:
  assumes "\<forall>(family_name, family_data) \<in> set task_families.
             \<forall>q \<in> set (queries family_data). \<forall>s.
               length (filter (\<lambda>r. system r = s) (systems q)) = 1"
  shows "map (\<lambda>(family_name, family_acc). (family_name, \<lambda>s. accuracy (family_acc s)))
           (compute_task_family_accuracy task_families)
         = map (\<lambda>(family_name, family_data). (family_name, compute_accuracy (queries family_data)))
             task_families"
  by (simp add: compute_task_family_accuracy_def family_accuracy_def compute_accuracy_def
      system_correct_of_def Let_def split_def fun_eq_iff)

theorem family_accuracy_agrees_witness:
  "map (\<lambda>(family_name, family_acc). (family_name, \<lambda>s. accuracy (family_acc s)))
     (compute_task_family_accuracy [(''f1_units'', \<lparr>total_queries = 1, queries = [sample_query]\<rparr>)])
   = [(''f1_units'', compute_accuracy [sample_query])]
   \<and> compute_accuracy [sample_query] RCE_LLM = 1"
proof -
  have one: "\<forall>(family_name, family_data) \<in> set [(''f1_units'', \<lparr>total_queries = 1, queries = [sample_query]\<rparr>)].
             \<forall>q \<in> set (queries family_data). \<forall>s.
               length (filter (\<lambda>r. system r = s) (systems q)) = 1"
  proof -
    have "length (filter (\<lambda>r. system r = s) (systems sample_query)) = 1" for s
      by (cases s) (simp_all add: sample_query_def)
    then show ?thesis by simp
  qed
  have acc: "compute_accuracy [sample_query] RCE_LLM = 1"
    by (simp add: compute_accuracy_def system_correct_of_def count_correct_def sample_query_def)
  from family_accuracy_agrees [OF one] acc show ?thesis by simp
qed

subsection \<open>Consistent improvement\<close>

lemma py_all_iff: "py_all bs \<longleftrightarrow> (\<forall>b \<in> set bs. b)"
  by (induction bs) auto

text \<open>
  Claim C6. The third hypothesis holds exactly when, in every family of the
  per-family accuracy table, the accuracy of RCE-LLM is strictly above the accuracy of
  both baselines; one family where it is not makes the result false.
\<close>

theorem consistent_improvement_iff:
  "h3_valid task_family_accuracy \<longleftrightarrow>
     (\<forall>(family_name, family_acc) \<in> set task_family_accuracy.
        accuracy (family_acc RCE_LLM) > accuracy (family_acc LLM)
        \<and> accuracy (family_acc RCE_LLM) > accuracy (family_acc LLM_RAG))"
  by (auto simp: h3_valid_def improvements_def py_all_iff Let_def)

theorem consistent_improvement_iff_witness:
  "h3_valid demo_task_family_accuracy
   \<and> \<not> h3_valid (demo_task_family_accuracy @
         [(''f6_tied'',
           entries \<lparr>acc_correct = 1, acc_total = 2, accuracy = 0.5\<rparr>
                   \<lparr>acc_correct = 2, acc_total = 2, accuracy = 1\<rparr>
                   \<lparr>acc_correct = 2, acc_total = 2, accuracy = 1\<rparr>)])
   \<and> h3_valid []"
  using consistent_improvement_iff [of demo_task_family_accuracy]
    consistent_improvement_iff [of "demo_task_family_accuracy @
         [(''f6_tied'',
           entries \<lparr>acc_correct = 1, acc_total = 2, accuracy = 0.5\<rparr>
                   \<lparr>acc_correct = 2, acc_total = 2, accuracy = 1\<rparr>
                   \<lparr>acc_correct = 2, acc_total = 2, accuracy = 1\<rparr>)]"]
    consistent_improvement_iff [of "[]"]
  by (simp add: demo_task_family_accuracy_def entries_def)

section \<open>Properties of Cohen's h\<close>

subsection \<open>The domain of \<open>cohens_h\<close>\<close>

lemma phi_eq:
  "phi p = (if 0 \<le> p \<and> p \<le> 1 then Inr (2 * arcsin (sqrt p)) else Inl ValueError)"
proof (cases "p < 0")
  case True
  then show ?thesis by (simp add: phi_def math_sqrt_def)
next
  case False
  then have nonneg: "0 \<le> sqrt p" by simp
  then have "\<not> sqrt p < - 1" by linarith
  then show ?thesis using False by (simp add: phi_def math_sqrt_def math_asin_def not_less)
qed

lemma cohens_h_eq:
  "cohens_h p1 p2 =
     (if 0 \<le> p1 \<and> p1 \<le> 1 \<and> 0 \<le> p2 \<and> p2 \<le> 1
      then Inr (2 * arcsin (sqrt p1) - 2 * arcsin (sqrt p2)) else Inl ValueError)"
  by (simp add: cohens_h_def phi_eq)



subsection \<open>Antisymmetry\<close>

text \<open>
  Claim C8. For all accuracies \<open>p\<close> and \<open>q\<close> in \<open>[0,1]\<close>, \<open>cohens_h\<close> returns a
  value on both orders of the arguments, \<open>cohens_h(p, q) = - cohens_h(q, p)\<close>, and
  \<open>cohens_h(p, p) = 0\<close>.
\<close>

theorem cohens_h_antisymmetric:
  assumes "0 \<le> p" "p \<le> 1" "0 \<le> q" "q \<le> 1"
  shows "\<exists>h. cohens_h p q = Inr h \<and> cohens_h q p = Inr (- h) \<and> cohens_h p p = Inr 0"
  using assms by (simp add: cohens_h_eq)

theorem cohens_h_antisymmetric_witness:
  "cohens_h (1/4) 1 = Inr (- (2 * pi / 3))
   \<and> cohens_h 1 (1/4) = Inr (2 * pi / 3)
   \<and> cohens_h (1/4) (1/4) = Inr 0"
proof -
  have a: "(0::real) \<le> 1/4" "(1/4::real) \<le> 1" "(0::real) \<le> 1" "(1::real) \<le> 1" by simp_all
  have s: "sqrt (1/4) = 1/2"
    by (rule real_sqrt_unique) (simp_all add: power2_eq_square)
  have v: "cohens_h (1/4) 1 = Inr (- (2 * pi / 3))"
    by (simp add: cohens_h_def phi_def math_sqrt_def math_asin_def s)
  from cohens_h_antisymmetric [OF a] v show ?thesis by auto
qed

subsection \<open>The effect size of the demonstration results\<close>

text \<open>
  Bounds of the cosine by its Maclaurin polynomials, to locate an angle from the value
  of its cosine.
\<close>

lemma cos_coeff_values:
  "cos_coeff 0 = 1" "cos_coeff (Suc 0) = 0" "cos_coeff 2 = - 1 / 2" "cos_coeff 3 = 0"
  "cos_coeff 4 = 1 / 24" "cos_coeff 5 = 0"
  by (simp_all add: cos_coeff_def fact_numeral)

lemma cos_sum_4:
  fixes x :: real
  shows "(\<Sum>m<4. cos_coeff m * x ^ m) = 1 - x\<^sup>2 / 2"
proof -
  have "{..<4::nat} = {0, 1, 2, 3}" by auto
  then show ?thesis by (simp add: cos_coeff_values)
qed

lemma cos_sum_6:
  fixes x :: real
  shows "(\<Sum>m<6. cos_coeff m * x ^ m) = 1 - x\<^sup>2 / 2 + x ^ 4 / 24"
proof -
  have "{..<6::nat} = {0, 1, 2, 3, 4, 5}" by auto
  then show ?thesis by (simp add: cos_coeff_values)
qed

lemma cos_upper_poly:
  fixes x :: real
  assumes "0 < x"
  shows "cos x \<le> 1 - x\<^sup>2 / 2 + x ^ 4 / 24"
proof -
  obtain t where t: "cos x = (\<Sum>m<4. cos_coeff m * x ^ m) + (cos (t + 1/2 * real 4 * pi) / fact 4) * x ^ 4"
    using Maclaurin_cos_expansion2 [of x 4] assms by auto
  have "cos (t + 1/2 * real 4 * pi) * x ^ 4 \<le> 1 * x ^ 4"
    by (rule mult_right_mono) simp_all
  then have "(cos (t + 1/2 * real 4 * pi) / fact 4) * x ^ 4 \<le> x ^ 4 / 24"
    by (simp add: fact_numeral)
  with t show ?thesis unfolding cos_sum_4 by linarith
qed

lemma cos_lower_poly:
  fixes x :: real
  assumes "0 < x"
  shows "1 - x\<^sup>2 / 2 + x ^ 4 / 24 - x ^ 6 / 720 \<le> cos x"
proof -
  obtain t where t: "cos x = (\<Sum>m<6. cos_coeff m * x ^ m) + (cos (t + 1/2 * real 6 * pi) / fact 6) * x ^ 6"
    using Maclaurin_cos_expansion2 [of x 6] assms by auto
  have "(- 1) * x ^ 6 \<le> cos (t + 1/2 * real 6 * pi) * x ^ 6"
    by (rule mult_right_mono) simp_all
  then have "- (x ^ 6 / 720) \<le> (cos (t + 1/2 * real 6 * pi) / fact 6) * x ^ 6"
    by (simp add: fact_numeral)
  with t show ?thesis unfolding cos_sum_6 by linarith
qed

text \<open>The angle of a proportion: arcsin (sqrt p), with its sine and cosine.\<close>

lemma angle_facts:
  fixes p :: real
  assumes "0 \<le> p" "p \<le> 1"
  shows "0 \<le> arcsin (sqrt p)" "arcsin (sqrt p) \<le> pi / 2"
    "sin (arcsin (sqrt p)) = sqrt p" "cos (arcsin (sqrt p)) = sqrt (1 - p)"
proof -
  have r: "0 \<le> sqrt p" "sqrt p \<le> 1" using assms by simp_all
  then have r': "- 1 \<le> sqrt p" by linarith
  show "0 \<le> arcsin (sqrt p)" using r by (simp add: arcsin_nonneg)
  show "arcsin (sqrt p) \<le> pi / 2" by (rule arcsin_ubound [OF r' r(2)])
  show "sin (arcsin (sqrt p)) = sqrt p" using r r' by simp
  show "cos (arcsin (sqrt p)) = sqrt (1 - p)"
    using cos_arcsin [OF r' r(2)] assms by simp
qed

lemma cos_angle_diff:
  fixes p q :: real
  assumes "0 \<le> p" "p \<le> 1" "0 \<le> q" "q \<le> 1"
  shows "cos (arcsin (sqrt p) - arcsin (sqrt q)) = sqrt ((1 - p) * (1 - q)) + sqrt (p * q)"
  by (simp add: cos_diff angle_facts [OF assms(1,2)] angle_facts [OF assms(3,4)] real_sqrt_mult)

lemma demo_angle_cos:
  "cos (arcsin (sqrt 0.933) - arcsin (sqrt 0.6)) = sqrt 0.0268 + sqrt (0.5598 :: real)"
proof -
  have "cos (arcsin (sqrt 0.933) - arcsin (sqrt 0.6))
      = sqrt ((1 - 0.933) * (1 - 0.6)) + sqrt (0.933 * (0.6 :: real))"
    by (rule cos_angle_diff) simp_all
  then show ?thesis by simp
qed

lemma demo_cos_bounds:
  "0.91189 < sqrt 0.0268 + sqrt (0.5598 :: real)"
  "sqrt 0.0268 + sqrt (0.5598 :: real) < 0.91191"
proof -
  have a: "(0.1637 :: real) < sqrt 0.0268" by (rule real_less_rsqrt) (simp add: power2_eq_square)
  have b: "(0.74819 :: real) < sqrt 0.5598" by (rule real_less_rsqrt) (simp add: power2_eq_square)
  have c: "sqrt 0.0268 < (0.16371 :: real)" by (rule real_less_lsqrt) (simp_all add: power2_eq_square)
  have d: "sqrt 0.5598 < (0.7482 :: real)" by (rule real_less_lsqrt) (simp_all add: power2_eq_square)
  from a b show "0.91189 < sqrt 0.0268 + sqrt (0.5598 :: real)" by simp
  from c d show "sqrt 0.0268 + sqrt (0.5598 :: real) < 0.91191" by simp
qed

lemma demo_angle_range:
  "0 \<le> arcsin (sqrt 0.933) - arcsin (sqrt (0.6 :: real))"
  "arcsin (sqrt 0.933) - arcsin (sqrt (0.6 :: real)) \<le> pi"
proof -
  have le: "arcsin (sqrt 0.6) \<le> arcsin (sqrt (0.933 :: real))"
  proof (rule arcsin_le_arcsin)
    have "0 \<le> sqrt (0.6 :: real)" by simp
    then show "- 1 \<le> sqrt (0.6 :: real)" by linarith
  qed simp_all
  then show "0 \<le> arcsin (sqrt 0.933) - arcsin (sqrt (0.6 :: real))" by simp
  have "arcsin (sqrt 0.933) \<le> pi / 2" "0 \<le> arcsin (sqrt (0.6 :: real))"
    by (rule angle_facts; simp)+
  moreover have "pi / 2 \<le> pi" by simp
  ultimately show "arcsin (sqrt 0.933) - arcsin (sqrt (0.6 :: real)) \<le> pi" by linarith
qed

lemma demo_h_bounds:
  "0.845 < 2 * arcsin (sqrt 0.933) - 2 * arcsin (sqrt (0.6 :: real))"
  "2 * arcsin (sqrt 0.933) - 2 * arcsin (sqrt (0.6 :: real)) < 0.847"
proof -
  define d :: real where "d = arcsin (sqrt 0.933) - arcsin (sqrt 0.6)"
  have range: "0 \<le> d" "d \<le> pi" unfolding d_def by (rule demo_angle_range)+
  have cosd: "0.91189 < cos d" "cos d < 0.91191"
    unfolding d_def demo_angle_cos by (rule demo_cos_bounds)+
  have pi_big: "(0.4235 :: real) \<le> pi" using pi_ge_two by simp
  have "cos d < cos 0.4225"
  proof -
    have "(0.91191 :: real) \<le> 1 - 0.4225\<^sup>2 / 2 + 0.4225 ^ 4 / 24 - 0.4225 ^ 6 / 720"
      by (simp add: power2_eq_square power4_eq_xxxx eval_nat_numeral)
    also have "\<dots> \<le> cos 0.4225" by (rule cos_lower_poly) simp
    finally show ?thesis using cosd(2) by linarith
  qed
  then have lo: "0.4225 < d"
    using cos_mono_less_eq [of d "0.4225"] range pi_big by simp
  have "cos 0.4235 < cos d"
  proof -
    have "cos 0.4235 \<le> 1 - 0.4235\<^sup>2 / 2 + 0.4235 ^ 4 / (24 :: real)"
      by (rule cos_upper_poly) simp
    also have "\<dots> \<le> 0.91189"
      by (simp add: power2_eq_square power4_eq_xxxx)
    finally show ?thesis using cosd(1) by linarith
  qed
  then have hi: "d < 0.4235"
    using cos_mono_less_eq [of "0.4235" d] range pi_big by simp
  from lo show "0.845 < 2 * arcsin (sqrt 0.933) - 2 * arcsin (sqrt (0.6 :: real))"
    unfolding d_def by simp
  from hi show "2 * arcsin (sqrt 0.933) - 2 * arcsin (sqrt (0.6 :: real)) < 0.847"
    unfolding d_def by simp
qed

text \<open>
  Claim C4, as amended. For the overall accuracies of the demonstration results (LLM
  \<open>0.600\<close>, LLM+RAG \<open>0.700\<close>, RCE-LLM \<open>0.933\<close>), \<open>compute_effect_sizes\<close> returns
  for RCE-LLM against LLM a Cohen's h between \<open>0.845\<close> and \<open>0.847\<close>, with the
  label \<open>large\<close>.
\<close>

theorem demo_effect_size_large:
  "\<exists>es. compute_effect_sizes demo_overall_accuracy = Inr es
     \<and> 0.845 < h_value (RCE_vs_LLM es) \<and> h_value (RCE_vs_LLM es) < 0.847
     \<and> bucket (RCE_vs_LLM es) = ''large''"
proof -
  define h :: real where "h = 2 * arcsin (sqrt 0.933) - 2 * arcsin (sqrt 0.6)"
  have b: "0.845 < h" "h < 0.847" unfolding h_def by (rule demo_h_bounds)+
  define h2 :: real where "h2 = 2 * arcsin (sqrt 0.933) - 2 * arcsin (sqrt 0.7)"
  have large: "interpret_cohens_h h = ''large''"
    using b by (simp add: interpret_cohens_h_def Let_def)
  have "compute_effect_sizes demo_overall_accuracy =
      Inr \<lparr>RCE_vs_LLM = \<lparr>h_value = h, bucket = interpret_cohens_h h\<rparr>,
           RCE_vs_RAG = \<lparr>h_value = h2, bucket = interpret_cohens_h h2\<rparr>\<rparr>"
    by (simp add: compute_effect_sizes_def demo_overall_accuracy_def entries_def cohens_h_eq
        h_def h2_def Let_def)
  then show ?thesis using b large by simp
qed

text \<open>
  The claim as stated fails in the value: Cohen's h of \<open>0.933\<close> against \<open>0.600\<close> is
  more than \<open>0.05\<close> away from \<open>0.789\<close>; and \<open>0.789\<close> itself is below \<open>0.8\<close>, which
  \<open>_interpret_cohens_h\<close> labels \<open>medium\<close>.
\<close>

theorem demo_effect_size_counterexample:
  "cohens_h 0.933 0.6 = Inr (2 * arcsin (sqrt 0.933) - 2 * arcsin (sqrt 0.6))
   \<and> \<not> \<bar>(2 * arcsin (sqrt 0.933) - 2 * arcsin (sqrt 0.6)) - 0.789\<bar> < (0.05 :: real)
   \<and> interpret_cohens_h 0.789 = ''medium''"
proof -
  have "cohens_h 0.933 0.6 = Inr (2 * arcsin (sqrt 0.933) - 2 * arcsin (sqrt 0.6))"
    by (simp add: cohens_h_eq)
  moreover have "\<not> \<bar>(2 * arcsin (sqrt 0.933) - 2 * arcsin (sqrt 0.6)) - 0.789\<bar> < (0.05 :: real)"
    using demo_h_bounds(1) by simp
  moreover have "interpret_cohens_h 0.789 = ''medium''"
    by (simp add: interpret_cohens_h_def)
  ultimately show ?thesis by blast
qed

end
